theory Spec2Isabelle
  imports Main "HOL-Library.List_Lexorder"
begin

section \<open>Service dispatcher (index.ts)\<close>

text \<open>
  \<^verbatim>\<open>servicesRunning.forEach(initService)\<close> starts every configured service in the
  mode its descriptor names. The descriptors (lib/Service.js) and the configuration value
  \<^verbatim>\<open>config.appInstance\<close> are inputs of the model: a descriptor is a record, the
  instance index is a string or undefined (\<open>None\<close>). \<^verbatim>\<open>runAs\<close> is one of the four modes
  of the \<^verbatim>\<open>switch\<close> or any other string, for which the \<^verbatim>\<open>switch\<close> does nothing.
\<close>

datatype RunAs = Web | Worker | Standalone | Cron | Other string

record Service =
  name :: string
  runAs :: RunAs
  type :: string
  cron :: string

subsection \<open>\<^verbatim>\<open>parseInt\<close> with no radix\<close>

text \<open>
  ECMAScript's \<^verbatim>\<open>parseInt(string)\<close>: leading white space is skipped, one sign is
  read, a prefix \<^verbatim>\<open>0x\<close> or \<^verbatim>\<open>0X\<close> selects radix 16 (otherwise 10), and the
  longest run of digits of that radix is the number; no digit at all gives
  \<^verbatim>\<open>NaN\<close>, here \<open>None\<close>. The result is kept as a mathematical integer: the
  rounding of a long digit string to a double never turns a non-zero value to zero or back,
  and \<^verbatim>\<open>-0 === 0\<close> holds, so the comparison with 0 below is the one the script makes.
\<close>

definition isWhiteSpace :: "char \<Rightarrow> bool" where
  "isWhiteSpace c = (c \<in> set [CHR 0x09, CHR 0x0A, CHR 0x0B, CHR 0x0C, CHR 0x0D, CHR 0x20])"





subsection \<open>The process and what starting a service does to it\<close>













section \<open>NIOD access policy (src/service/niod/access.ts)\<close>

text \<open>
  \<^verbatim>\<open>hasAccess\<close> reads three things from outside: the item store
  (\<^verbatim>\<open>getRootItemByCollectionId\<close>, lib/Item.js), the clock (\<^verbatim>\<open>moment()\<close>) and the
  enumeration \<^verbatim>\<open>AccessState\<close> (lib/Security.js). The store and the clock are
  parameters of the model; the enumeration is declared here with the three states the
  server knows.

  A moment is an instant in milliseconds since the epoch, or invalid. The field
  \<^verbatim>\<open>accessDate\<close> holds the moment that \<^verbatim>\<open>moment(accessDate)\<close> denotes; it is
  \<open>None\<close> when the stored value is absent or falsy, which is what
  \<^verbatim>\<open>!accessDate\<close> tests.
\<close>

datatype AccessState = CLOSED | TIERED | OPEN

record Access =
  state :: AccessState

datatype Moment = Moment int | InvalidMoment

text \<open>
  \<^verbatim>\<open>a.isAfter(b)\<close> at the default millisecond granularity: false when either
  side is invalid, otherwise the strict comparison of the two instants.
\<close>

fun isAfter :: "Moment \<Rightarrow> Moment \<Rightarrow> bool" where
  "isAfter (Moment a) (Moment b) = (b < a)"
| "isAfter _ _ = False"

record Niod =
  accessDate :: "Moment option"

record RootItem =
  niod :: "Niod option"

record Item =
  collection_id :: "string option"
  type :: string

record AccessParams =
  item :: Item
  ip :: "string option"
  identities :: "string list"

text \<open>
  \<^verbatim>\<open>rootItem?.niod?.accessDate\<close>: each missing link of the chain gives
  \<^verbatim>\<open>undefined\<close>.
\<close>

definition rootAccessDate :: "RootItem option \<Rightarrow> Moment option" where
  "rootAccessDate rootItem =
     (case rootItem of
        None \<Rightarrow> None
      | Some r \<Rightarrow> (case niod r of None \<Rightarrow> None | Some n \<Rightarrow> accessDate n))"

definition hasAccess :: "(Item \<Rightarrow> RootItem option) \<Rightarrow> int \<Rightarrow> AccessParams \<Rightarrow> Access" where
  "hasAccess getRootItemByCollectionId now params =
     (if collection_id (item params) = None \<or> Item.type (item params) = ''metadata''
      then \<lparr>state = OPEN\<rparr>
      else
        (case rootAccessDate (getRootItemByCollectionId (item params)) of
           None \<Rightarrow> \<lparr>state = OPEN\<rparr>
         | Some d \<Rightarrow>
             if isAfter (Moment now) d then \<lparr>state = OPEN\<rparr> else \<lparr>state = CLOSED\<rparr>))"

section \<open>XML documents and XPath steps (libxmljs2)\<close>

text \<open>
  The finding aid reaches the server as a parsed XML document, read with XPath
  expressions. A document is the tree of its root element; an element has a namespace URI,
  a local name, attributes without namespace and child nodes, which are elements or text.
  Characters are bytes, so the model covers documents and identifiers in ASCII, on which
  \<^verbatim>\<open>toLowerCase\<close> and \<^verbatim>\<open>trim\<close> act as written below.

  XPath works on nodes in place, so a node comes with the path that leads to it: the
  ancestors from the parent up to the root element, each with the position of the child
  the path goes through.
\<close>

datatype Xml = Elem string string "(string \<times> string) list" "Xml list" | Text string

datatype XmlNode = At Xml "(Xml \<times> nat) list"

definition ns :: string where
  "ns = ''urn:isbn:1-931666-22-9''"

fun xml :: "XmlNode \<Rightarrow> Xml" where
  "xml (At x anc) = x"

fun kids :: "Xml \<Rightarrow> Xml list" where
  "kids (Elem uri local as cs) = cs"
| "kids (Text t) = []"

fun isElement :: "XmlNode \<Rightarrow> bool" where
  "isElement (At (Elem uri local as cs) anc) = True"
| "isElement (At (Text t) anc) = False"

fun anyNode :: "XmlNode \<Rightarrow> bool" where
  "anyNode n = True"

text \<open>The name test \<^verbatim>\<open>ead:local\<close>, with the prefix bound to \<^const>\<open>ns\<close>.\<close>

fun ead :: "string \<Rightarrow> XmlNode \<Rightarrow> bool" where
  "ead local (At (Elem uri l as cs) anc) = (uri = ns \<and> l = local)"
| "ead local (At (Text t) anc) = False"

text \<open>\<^verbatim>\<open>name()\<close> of libxmljs2: the local name of an element, \<^verbatim>\<open>text\<close> for a text node.\<close>

fun nodeName :: "XmlNode \<Rightarrow> string" where
  "nodeName (At (Elem uri local as cs) anc) = local"
| "nodeName (At (Text t) anc) = ''text''"

text \<open>\<^verbatim>\<open>attr(key)\<close> and the value of the attribute it returns.\<close>

fun attr :: "string \<Rightarrow> XmlNode \<Rightarrow> string option" where
  "attr key (At (Elem uri local as cs) anc) = map_of as key"
| "attr key (At (Text t) anc) = None"

text \<open>The predicate \<^verbatim>\<open>[@key="v"]\<close>.\<close>

definition attrIs :: "string \<Rightarrow> string \<Rightarrow> XmlNode \<Rightarrow> bool" where
  "attrIs key v n = (attr key n = Some v)"

text \<open>\<^verbatim>\<open>text()\<close> of libxmljs2, and XPath's string value: all text below the node.\<close>

fun stringValue :: "Xml \<Rightarrow> string" where
  "stringValue (Text t) = t"
| "stringValue (Elem uri local as cs) = concat (map stringValue cs)"

definition textOf :: "XmlNode \<Rightarrow> string" where
  "textOf n = stringValue (xml n)"

subsection \<open>Axes\<close>

fun childrenFrom :: "Xml \<Rightarrow> (Xml \<times> nat) list \<Rightarrow> nat \<Rightarrow> Xml list \<Rightarrow> XmlNode list" where
  "childrenFrom p anc i [] = []"
| "childrenFrom p anc i (c # cs) = At c ((p, i) # anc) # childrenFrom p anc (Suc i) cs"

fun child :: "XmlNode \<Rightarrow> XmlNode list" where
  "child (At x anc) = childrenFrom x anc 0 (kids x)"

fun parent :: "XmlNode \<Rightarrow> XmlNode list" where
  "parent (At x []) = []"
| "parent (At x ((p, i) # anc)) = [At p anc]"

fun precedingSibling :: "XmlNode \<Rightarrow> XmlNode list" where
  "precedingSibling (At x []) = []"
| "precedingSibling (At x ((p, i) # anc)) = take i (childrenFrom p anc 0 (kids p))"

function subtree :: "Xml \<Rightarrow> (Xml \<times> nat) list \<Rightarrow> XmlNode list"
  and subtrees :: "Xml \<Rightarrow> (Xml \<times> nat) list \<Rightarrow> nat \<Rightarrow> Xml list \<Rightarrow> XmlNode list" where
  "subtree (Text t) anc = [At (Text t) anc]"
| "subtree (Elem uri local as cs) anc =
     At (Elem uri local as cs) anc # subtrees (Elem uri local as cs) anc 0 cs"
| "subtrees p anc i [] = []"
| "subtrees p anc i (c # cs) = subtree c ((p, i) # anc) @ subtrees p anc (Suc i) cs"
  by pat_completeness auto
termination
  by (relation "measure (\<lambda>a. case a of Inl (x, anc) \<Rightarrow> 2 * size x
                                      | Inr (p, anc, i, cs) \<Rightarrow> 2 * size_list size cs + 1)")
     auto

fun descendantOrSelf :: "XmlNode \<Rightarrow> XmlNode list" where
  "descendantOrSelf (At x anc) = subtree x anc"

subsection \<open>Node sets\<close>

text \<open>
  A location step maps an axis over the nodes it starts from and keeps what passes the
  node test. The result of an expression is a node set: libxmljs2 returns it without
  repetition, in document order, which is the lexicographic order of the child positions
  from the root (an ancestor comes before its descendants). \<^verbatim>\<open>find\<close> returns the whole
  list, \<^verbatim>\<open>get\<close> its first node or nothing.
\<close>

definition step :: "(XmlNode \<Rightarrow> XmlNode list) \<Rightarrow> (XmlNode \<Rightarrow> bool) \<Rightarrow> XmlNode list \<Rightarrow> XmlNode list" where
  "step axis test nodes = concat (map (\<lambda>n. filter test (axis n)) nodes)"

fun position :: "XmlNode \<Rightarrow> nat list" where
  "position (At x anc) = rev (map snd anc)"

definition find :: "XmlNode list \<Rightarrow> XmlNode list" where
  "find nodes = sort_key position (remdups nodes)"

definition get :: "XmlNode list \<Rightarrow> XmlNode option" where
  "get nodes = (case find nodes of [] \<Rightarrow> None | n # rest \<Rightarrow> Some n)"

text \<open>
  \<^verbatim>\<open>//test\<close> from the document: every node of the document that passes the test
  (each one is a child of the document node or of an element).
\<close>

definition anywhere :: "(XmlNode \<Rightarrow> bool) \<Rightarrow> Xml \<Rightarrow> XmlNode list" where
  "anywhere test doc = filter test (descendantOrSelf (At doc []))"

section \<open>Strings\<close>

text \<open>
  The string operations of JavaScript and XPath that the EAD reader calls, on ASCII.
  \<^verbatim>\<open>trim\<close> removes the white space of \<^const>\<open>isWhiteSpace\<close> at both ends;
  \<^verbatim>\<open>normalize-space()\<close> knows four white space characters, removes them at both
  ends and replaces every run of them inside by one space.
\<close>

definition toLowerCaseChar :: "char \<Rightarrow> char" where
  "toLowerCaseChar c =
     (let n = (of_char c :: nat) in if 65 \<le> n \<and> n \<le> 90 then char_of (n + 32) else c)"

definition toLowerCase :: "string \<Rightarrow> string" where
  "toLowerCase s = map toLowerCaseChar s"

definition trim :: "string \<Rightarrow> string" where
  "trim s = rev (dropWhile isWhiteSpace (rev (dropWhile isWhiteSpace s)))"

definition isXmlSpace :: "char \<Rightarrow> bool" where
  "isXmlSpace c = (c \<in> set [CHR 0x20, CHR 0x09, CHR 0x0D, CHR 0x0A])"

fun collapse :: "bool \<Rightarrow> string \<Rightarrow> string" where
  "collapse afterSpace [] = []"
| "collapse afterSpace (c # cs) =
     (if isXmlSpace c
      then (if afterSpace then collapse True cs else CHR 0x20 # collapse True cs)
      else c # collapse False cs)"

definition normalizeSpace :: "string \<Rightarrow> string" where
  "normalizeSpace s =
     (let t = collapse True s
      in if t \<noteq> [] \<and> last t = CHR 0x20 then butlast t else t)"

fun startsWith :: "string \<Rightarrow> string \<Rightarrow> bool" where
  "startsWith s [] = True"
| "startsWith [] (c # cs) = False"
| "startsWith (x # xs) (c # cs) = (x = c \<and> startsWith xs cs)"

fun includesString :: "string \<Rightarrow> string \<Rightarrow> bool" where
  "includesString [] search = startsWith [] search"
| "includesString (x # xs) search = (startsWith (x # xs) search \<or> includesString xs search)"

text \<open>\<^verbatim>\<open>s.split(sep)\<close> on a one-character separator, and \<^verbatim>\<open>parts.join(sep)\<close>.\<close>

fun split :: "char \<Rightarrow> string \<Rightarrow> string list" where
  "split sep [] = [[]]"
| "split sep (c # cs) =
     (if c = sep then [] # split sep cs
      else (case split sep cs of [] \<Rightarrow> [[c]] | part # parts \<Rightarrow> (c # part) # parts))"

fun join :: "string \<Rightarrow> string list \<Rightarrow> string" where
  "join sep [] = []"
| "join sep [part] = part"
| "join sep (part # next # parts) = part @ sep @ join sep (next # parts)"

text \<open>\<^verbatim>\<open>[...new Set(xs)]\<close>: each value once, at its first occurrence.\<close>

fun unique :: "'a list \<Rightarrow> 'a list" where
  "unique [] = []"
| "unique (x # xs) = x # unique (filter (\<lambda>y. y \<noteq> x) xs)"

section \<open>EAD metadata and access (lib/EAD.ts)\<close>

text \<open>
  The MD5 digest comes from Node's crypto module and is kept symbolic: an identifier is
  either the text of a \<^verbatim>\<open>unitid\<close> element or the hexadecimal MD5 digest of a title.
\<close>

datatype UnitId = UnitIdText string | Md5Hex string

record EADMetadata =
  formats :: "string list"
  title :: string
  unitId :: "UnitId option"
  unitIdIsInventoryNumber :: bool
  order :: "nat option"
  content :: "string option"
  extent :: "string option"
  authors :: "(string \<times> string) list option"
  dates :: "string list option"
  eadTitle :: "string option"

definition getRootId :: "string \<Rightarrow> string" where
  "getRootId collectionId = hd (split CHR ''.'' collectionId)"

definition getUnitId :: "string \<Rightarrow> string" where
  "getUnitId collectionId = join ''.'' (tl (split CHR ''.'' collectionId))"

subsection \<open>The expressions' building blocks\<close>

text \<open>
  \<^verbatim>\<open>/ead:local\<close> is \<open>children local\<close>, \<^verbatim>\<open>//ead:local\<close> is
  \<open>descendants local\<close> (short for \<^verbatim>\<open>/descendant-or-self::node()/ead:local\<close>),
  \<^verbatim>\<open>/..\<close> is \<open>up\<close>, and a predicate in brackets is \<open>having\<close>.
\<close>

definition children :: "string \<Rightarrow> XmlNode list \<Rightarrow> XmlNode list" where
  "children local nodes = step child (ead local) nodes"

definition descendants :: "string \<Rightarrow> XmlNode list \<Rightarrow> XmlNode list" where
  "descendants local nodes = step child (ead local) (step descendantOrSelf anyNode nodes)"

definition up :: "XmlNode list \<Rightarrow> XmlNode list" where
  "up nodes = step parent anyNode nodes"

definition having :: "(XmlNode \<Rightarrow> bool) \<Rightarrow> XmlNode list \<Rightarrow> XmlNode list" where
  "having p nodes = filter p nodes"

text \<open>
  The identifier is pasted into the expression between double quotes:
  \<^verbatim>\<open>[normalize-space()="${unitId}"]\<close>. For an identifier without a double quote this
  is the comparison below; an identifier with one gives another expression, which the
  model does not cover, so the theorems about these lookups ask for \<open>xpathLiteral\<close>.
\<close>

definition xpathLiteral :: "string \<Rightarrow> bool" where
  "xpathLiteral s = (CHR 0x22 \<notin> set s)"

definition normalizeSpaceIs :: "string \<Rightarrow> XmlNode \<Rightarrow> bool" where
  "normalizeSpaceIs v n = (normalizeSpace (textOf n) = v)"

text \<open>\<^verbatim>\<open>//ead:ead/ead:archdesc\<close>\<close>

definition archdescs :: "Xml \<Rightarrow> XmlNode list" where
  "archdescs doc = children ''archdesc'' (anywhere (ead ''ead'') doc)"

subsection \<open>Extraction of one level\<close>

definition formatElems :: "XmlNode \<Rightarrow> XmlNode list" where
  "formatElems el =
     find (children ''genreform'' (children ''controlaccess'' (children ''controlaccess''
             (having (attrIs ''type'' ''content_and_structure'') (children ''descgrp'' [el]))))
           @ children ''genreform'' (children ''controlaccess'' [el]))"

definition classifyFormat :: "XmlNode \<Rightarrow> string" where
  "classifyFormat formatElem =
     (let format = toLowerCase (textOf formatElem) in
      if includesString format ''article'' then ''article''
      else if includesString format ''serial'' then ''serial''
      else if includesString format ''book'' then ''book''
      else if includesString format ''sound'' then ''sound''
      else if includesString format ''visual'' \<or> includesString format ''photo''
              \<or> includesString format ''poster'' \<or> includesString format ''drawing''
              \<or> includesString format ''object'' then ''visual''
      else if includesString format ''moving'' then ''moving visual''
      else ''archive'')"

definition extractFormats :: "XmlNode \<Rightarrow> EADMetadata \<Rightarrow> EADMetadata option \<Rightarrow> EADMetadata" where
  "extractFormats el metadata parentMetadata =
     (let fs = map classifyFormat (formatElems el) in
      if length fs = 0 \<and> parentMetadata \<noteq> None
      then metadata\<lparr>formats := formats (the parentMetadata)\<rparr>
      else metadata\<lparr>formats := unique fs\<rparr>)"

definition extractTitle :: "XmlNode \<Rightarrow> EADMetadata \<Rightarrow> EADMetadata" where
  "extractTitle el metadata =
     (case get (children ''unittitle'' (children ''did'' [el])) of
        Some t \<Rightarrow> metadata\<lparr>title := trim (textOf t)\<rparr>
      | None \<Rightarrow> metadata)"

definition extractUnitId :: "XmlNode \<Rightarrow> EADMetadata \<Rightarrow> EADMetadata option \<Rightarrow> EADMetadata" where
  "extractUnitId el metadata parentMetadata =
     (if title metadata \<noteq> []
      then
        (let u = get (children ''unitid'' (children ''did'' [el])) in
         metadata\<lparr>unitIdIsInventoryNumber := (u \<noteq> None \<and> parentMetadata \<noteq> None),
                  unitId := Some (case u of
                                    Some e \<Rightarrow> UnitIdText (trim (textOf e))
                                  | None \<Rightarrow> Md5Hex (title metadata))\<rparr>)
      else metadata)"

text \<open>\<^verbatim>\<open>count(./preceding-sibling::*)\<close>\<close>

definition extractOrder :: "XmlNode \<Rightarrow> EADMetadata \<Rightarrow> EADMetadata" where
  "extractOrder el metadata =
     metadata\<lparr>order := Some (length (find (step precedingSibling isElement [el])))\<rparr>"

definition extractContent :: "XmlNode \<Rightarrow> EADMetadata \<Rightarrow> EADMetadata" where
  "extractContent el metadata =
     (let ps = find (children ''p'' (children ''scopecontent''
                       (having (attrIs ''type'' ''content_and_structure'') (children ''descgrp'' [el])))
                     @ children ''p'' (children ''scopecontent'' [el]))
      in if length ps > 0
         then metadata\<lparr>content := Some (join ''<br/>'' (map (\<lambda>p. trim (textOf p)) ps))\<rparr>
         else metadata)"

definition extractExtent :: "XmlNode \<Rightarrow> EADMetadata \<Rightarrow> EADMetadata" where
  "extractExtent el metadata =
     (case get (descendants ''extent'' (children ''physdesc'' (children ''did'' [el]))) of
        Some e \<Rightarrow> metadata\<lparr>extent := Some (trim (textOf e))\<rparr>
      | None \<Rightarrow> metadata)"

definition extractAuthors :: "XmlNode \<Rightarrow> EADMetadata \<Rightarrow> EADMetadata" where
  "extractAuthors el metadata =
     (let origination =
            map (\<lambda>origin. (case attr ''label'' origin of Some v \<Rightarrow> v | None \<Rightarrow> ''Author'',
                           trim (textOf origin)))
                (find (descendants ''origination'' (children ''did'' [el])))
      in if length origination > 0 then metadata\<lparr>authors := Some origination\<rparr> else metadata)"

definition extractDates :: "XmlNode \<Rightarrow> EADMetadata \<Rightarrow> EADMetadata" where
  "extractDates el metadata =
     (let ds = map (\<lambda>date. trim (textOf date)) (find (descendants ''unitdate'' (children ''did'' [el])))
      in if length ds > 0 then metadata\<lparr>dates := Some ds\<rparr> else metadata)"

text \<open>
  \<^verbatim>\<open>parentMetadata.eadTitle || parentMetadata.title\<close>: the left side when it is
  set and not the empty string.
\<close>

definition extractEadTitle :: "EADMetadata \<Rightarrow> EADMetadata option \<Rightarrow> EADMetadata" where
  "extractEadTitle metadata parentMetadata =
     (case parentMetadata of
        Some p \<Rightarrow>
          metadata\<lparr>eadTitle :=
            Some (case eadTitle p of Some t \<Rightarrow> if t \<noteq> [] then t else title p | None \<Rightarrow> title p)\<rparr>
      | None \<Rightarrow> metadata)"

definition extractMetadataFromLevel :: "XmlNode option \<Rightarrow> EADMetadata option \<Rightarrow> EADMetadata" where
  "extractMetadataFromLevel level parentMetadata =
     (let metadata = \<lparr>formats = [], title = ''No title'', unitId = None,
                       unitIdIsInventoryNumber = True, order = None, content = None,
                       extent = None, authors = None, dates = None, eadTitle = None\<rparr>
      in case level of
           None \<Rightarrow> metadata
         | Some el \<Rightarrow>
             (let m1 = extractFormats el metadata parentMetadata;
                  m2 = extractTitle el m1;
                  m3 = extractUnitId el m2 parentMetadata;
                  m4 = extractOrder el m3;
                  m5 = extractContent el m4;
                  m6 = extractExtent el m5;
                  m7 = extractAuthors el m6;
                  m8 = extractDates el m7
              in extractEadTitle m8 parentMetadata))"

subsection \<open>From the target level up\<close>

text \<open>
  \<^verbatim>\<open>walkThroughLevels\<close> follows
  \<^verbatim>\<open>level.get('.//preceding-sibling::ead:did/..')\<close>: of the nodes at and below the
  level, those with an earlier sibling \<^verbatim>\<open>did\<close>, and the parents of these
  \<^verbatim>\<open>did\<close> elements; the first in document order is the level's own parent when a
  \<^verbatim>\<open>did\<close> precedes the level there. The recursion goes on while the element found
  has another name than the level. Nothing in the function bounds the recursion, so a
  result \<open>None\<close> stands for a call that does not return; that every call returns
  is proved further down.
\<close>

definition parentOf :: "XmlNode \<Rightarrow> XmlNode option" where
  "parentOf level =
     get (up (step precedingSibling (ead ''did'') (step descendantOrSelf anyNode [level])))"

partial_function (option) walkThroughLevels ::
  "XmlNode option \<Rightarrow> EADMetadata \<Rightarrow> EADMetadata list option" where
  "walkThroughLevels level parentMetadata =
     (case level of
        None \<Rightarrow> Some []
      | Some l \<Rightarrow>
          (let metadata = extractMetadataFromLevel (Some l) (Some parentMetadata) in
           case parentOf l of
             Some p \<Rightarrow>
               if nodeName p \<noteq> nodeName l
               then Option.bind (walkThroughLevels (Some p) metadata)
                      (\<lambda>levels. Some (levels @ [metadata]))
               else Some [metadata]
           | None \<Rightarrow> Some [metadata]))"

declare walkThroughLevels.simps [code]

text \<open>\<^verbatim>\<open>.//ead:unitid[normalize-space()="${unitId}"]/../..\<close> from the archdesc.\<close>

definition levelOf :: "string \<Rightarrow> XmlNode \<Rightarrow> XmlNode option" where
  "levelOf uid archdesc =
     get (up (up (having (normalizeSpaceIs uid) (descendants ''unitid'' [archdesc]))))"

definition getMetadata :: "string \<Rightarrow> Xml \<Rightarrow> EADMetadata list option" where
  "getMetadata collectionId doc =
     (case get (archdescs doc) of
        Some archdesc \<Rightarrow>
          (let uid = getUnitId collectionId;
               metadata = extractMetadataFromLevel (Some archdesc) None
           in Option.bind (walkThroughLevels (levelOf uid archdesc) metadata)
                (\<lambda>levels. Some (metadata # levels)))
      | None \<Rightarrow> Some [])"

subsection \<open>Access\<close>

text \<open>
  \<^verbatim>\<open>//ead:ead/ead:archdesc/ead:descgrp[@type="access_and_use"]/ead:accessrestrict|//ead:ead/ead:archdesc/ead:accessrestrict\<close>
  and
  \<^verbatim>\<open>//ead:ead/ead:archdesc//ead:unitid[normalize-space()="${unitId}"]/../../ead:accessrestrict\<close>
\<close>

definition accessRestrictOf :: "Xml \<Rightarrow> XmlNode option" where
  "accessRestrictOf doc =
     get (children ''accessrestrict''
            (having (attrIs ''type'' ''access_and_use'') (children ''descgrp'' (archdescs doc)))
          @ children ''accessrestrict'' (archdescs doc))"

definition itemAccessRestrictOf :: "string \<Rightarrow> Xml \<Rightarrow> XmlNode option" where
  "itemAccessRestrictOf uid doc =
     get (children ''accessrestrict''
            (up (up (having (normalizeSpaceIs uid) (descendants ''unitid'' (archdescs doc))))))"

text \<open>
  The first half of \<^verbatim>\<open>getAccess\<close> computes the variable \<^verbatim>\<open>restriction\<close>
  (\<open>None\<close> is \<^verbatim>\<open>null\<close>), the second half is the \<^verbatim>\<open>switch\<close> on it.
\<close>

definition restriction :: "string \<Rightarrow> Xml \<Rightarrow> string option" where
  "restriction collectionId doc =
     (case accessRestrictOf doc of
        None \<Rightarrow> None
      | Some accessRestrict \<Rightarrow>
          (let r = (case get (children ''p'' [accessRestrict]) of
                      Some accessValue \<Rightarrow> Some (trim (toLowerCase (textOf accessValue)))
                    | None \<Rightarrow> None);
               uid = getUnitId collectionId
           in if attr ''type'' accessRestrict = Some ''part''
              then (case itemAccessRestrictOf uid doc of
                      Some itemAccessRestrict \<Rightarrow>
                        (case attr ''type'' itemAccessRestrict of
                           Some v \<Rightarrow> Some v
                         | None \<Rightarrow> Some ''open'')
                    | None \<Rightarrow> Some ''open'')
              else r))"

definition getAccess :: "string \<Rightarrow> Xml \<Rightarrow> string" where
  "getAccess collectionId doc =
     (let r = restriction collectionId doc in
      if r = Some ''gesloten'' \<or> r = Some ''closed'' then ''closed''
      else if r = Some ''beperkt'' \<or> r = Some ''restricted'' then ''restricted''
      else if r = Some ''date'' then ''date''
      else ''open'')"

section \<open>Notions used to state the properties\<close>


definition recognised :: "string option \<Rightarrow> bool" where
  "recognised r = (r \<in> set [Some ''gesloten'', Some ''closed'', Some ''beperkt'',
                               Some ''restricted'', Some ''date''])"

text \<open>
  For the walk up the levels: the ancestors of a node, and whether a sibling
  \<^verbatim>\<open>did\<close> precedes it.
\<close>

fun ancestors :: "XmlNode \<Rightarrow> (Xml \<times> nat) list" where
  "ancestors (At x anc) = anc"

definition hasDidBefore :: "XmlNode \<Rightarrow> bool" where
  "hasDidBefore n = (filter (ead ''did'') (precedingSibling n) \<noteq> [])"

section \<open>Example inputs\<close>

text \<open>An image of a collection whose root item is looked up in the store.\<close>

definition scan :: AccessParams where
  "scan = \<lparr>item = \<lparr>collection_id = Some ''NIOD-1'', type = ''image''\<rparr>,
            ip = None, identities = []\<rparr>"

text \<open>A store in which every collection opens at the instant \<open>d\<close>.\<close>

definition opensAt :: "int \<Rightarrow> Item \<Rightarrow> RootItem option" where
  "opensAt d i = Some \<lparr>niod = Some \<lparr>accessDate = Some (Moment d)\<rparr>\<rparr>"


text \<open>
  Finding aids. \<open>fondsA\<close> has the fonds "Fonds A", below it a series with the
  identifier 1 and no title, and in the series the item 1.1, "Letter".
  \<open>closedBut1\<close> is a closed fonds with two series, the first of which carries an
  access restriction of its own, of type open; the attributes of the restriction of the
  fonds are left open, to mark it as partial or not. \<open>headerOnly\<close> has no
  \<^verbatim>\<open>archdesc\<close>, and the restriction of \<open>readingRoom\<close> is a sentence.
\<close>

definition tag :: "string \<Rightarrow> Xml list \<Rightarrow> Xml" where
  "tag local cs = Elem ns local [] cs"

definition fondsA :: Xml where
  "fondsA =
     tag ''ead'' [tag ''archdesc''
       [tag ''did'' [tag ''unittitle'' [Text ''Fonds A'']],
        tag ''dsc''
          [tag ''c01''
             [tag ''did'' [tag ''unitid'' [Text ''1'']],
              tag ''c02''
                [tag ''did'' [tag ''unitid'' [Text ''1.1''],
                              tag ''unittitle'' [Text ''Letter'']]]]]]]"

definition fondsA_archdesc :: XmlNode where
  "fondsA_archdesc = At (hd (kids fondsA)) [(fondsA, 0)]"

definition headerOnly :: Xml where
  "headerOnly = tag ''ead'' [tag ''eadheader'' [tag ''eadid'' [Text ''A'']]]"

definition closedBut1 :: "(string \<times> string) list \<Rightarrow> Xml" where
  "closedBut1 as =
     tag ''ead'' [tag ''archdesc''
       [tag ''did'' [tag ''unittitle'' [Text ''Fonds A'']],
        Elem ns ''accessrestrict'' as [tag ''p'' [Text ''Closed'']],
        tag ''dsc''
          [tag ''c01''
             [tag ''did'' [tag ''unitid'' [Text ''1'']],
              Elem ns ''accessrestrict'' [(''type'', ''open'')] [tag ''p'' [Text ''Open'']]],
           tag ''c01''
             [tag ''did'' [tag ''unitid'' [Text ''2'']]]]]]"

definition readingRoom :: Xml where
  "readingRoom =
     tag ''ead'' [tag ''archdesc''
       [tag ''accessrestrict'' [tag ''p'' [Text ''Ask in the reading room'']]]]"

text \<open>
  The record of a missing level, and two series on their own: one with an identifier,
  one with a title only.
\<close>

definition blank :: EADMetadata where
  "blank = extractMetadataFromLevel None None"

definition numbered :: XmlNode where
  "numbered = At (tag ''c01'' [tag ''did'' [tag ''unitid'' [Text ''1'']]]) []"

definition unnumbered :: XmlNode where
  "unnumbered = At (tag ''c01'' [tag ''did'' [tag ''unittitle'' [Text ''Minutes'']]]) []"

text \<open>A series whose genre matches none of the known formats.\<close>

definition minuteBook :: XmlNode where
  "minuteBook =
     At (tag ''c01'' [tag ''did'' [tag ''unitid'' [Text ''3'']],
                      tag ''controlaccess'' [tag ''genreform'' [Text ''Minutes'']]]) []"

section \<open>Properties of the access policy\<close>

text \<open>
  C7. Whatever the item, the requester's address and the identities: when the item's
  root item carries no access date (no root item, no \<^verbatim>\<open>niod\<close> block or no date in
  it), \<^verbatim>\<open>hasAccess\<close> answers open, at every time of the clock. The policy reads no
  classification of the item, so this holds for the date-gated ones among all others.
\<close>

theorem hasAccess_without_accessDate:
  assumes "rootAccessDate (getRootItemByCollectionId (item params)) = None"
  shows "hasAccess getRootItemByCollectionId now params = \<lparr>state = OPEN\<rparr>"
  using assms by (simp add: hasAccess_def)

theorem hasAccess_without_accessDate_witness:
  "hasAccess (\<lambda>i. Some \<lparr>niod = None\<rparr>) 1700000000000
     (scan\<lparr>ip := Some ''10.0.0.7'', identities := [''token'']\<rparr>) = \<lparr>state = OPEN\<rparr>"
  using hasAccess_without_accessDate
          [of "\<lambda>i. Some \<lparr>niod = None\<rparr>"
              "scan\<lparr>ip := Some ''10.0.0.7'', identities := [''token'']\<rparr>" 1700000000000]
  by (simp add: rootAccessDate_def)

text \<open>
  C1, as the code has it. For an item with a binary payload in a collection whose
  root item carries the valid access date \<open>d\<close>, \<^verbatim>\<open>hasAccess\<close> answers open exactly
  when the clock is strictly after \<open>d\<close>; at \<open>d\<close> itself and before it the answer is
  closed. \<^verbatim>\<open>isAfter\<close> is a strict comparison.
\<close>

theorem hasAccess_accessDate_boundary:
  assumes "collection_id (item params) \<noteq> None"
    and "Item.type (item params) \<noteq> ''metadata''"
    and "rootAccessDate (getRootItemByCollectionId (item params)) = Some (Moment d)"
  shows "hasAccess getRootItemByCollectionId now params
           = \<lparr>state = (if d < now then OPEN else CLOSED)\<rparr>"
  using assms by (simp add: hasAccess_def)

theorem hasAccess_accessDate_boundary_witness:
  "hasAccess (opensAt 1000) 999 scan = \<lparr>state = CLOSED\<rparr>
   \<and> hasAccess (opensAt 1000) 1000 scan = \<lparr>state = CLOSED\<rparr>
   \<and> hasAccess (opensAt 1000) 1001 scan = \<lparr>state = OPEN\<rparr>"
  using hasAccess_accessDate_boundary [of scan "opensAt 1000" 1000 999]
        hasAccess_accessDate_boundary [of scan "opensAt 1000" 1000 1000]
        hasAccess_accessDate_boundary [of scan "opensAt 1000" 1000 1001]
  by (simp add: scan_def opensAt_def rootAccessDate_def)

text \<open>
  The claim's inclusive boundary fails: with access date 1000 and the clock at 1000 the
  answer is closed, not open.
\<close>

theorem hasAccess_at_accessDate_counterexample:
  "state (hasAccess (opensAt 1000) 1000 scan) \<noteq> OPEN"
  by (simp add: hasAccess_def scan_def opensAt_def rootAccessDate_def)

text \<open>
  An item without a collection, or of the type metadata, is open, whatever the access
  date and the clock.
\<close>

theorem hasAccess_metadata:
  assumes "collection_id (item params) = None \<or> Item.type (item params) = ''metadata''"
  shows "hasAccess getRootItemByCollectionId now params = \<lparr>state = OPEN\<rparr>"
  using assms by (auto simp: hasAccess_def)

theorem hasAccess_metadata_witness:
  "hasAccess (opensAt 1000) 0 (scan\<lparr>item := \<lparr>collection_id = Some ''NIOD-1'', type = ''metadata''\<rparr>\<rparr>)
     = \<lparr>state = OPEN\<rparr>"
  using hasAccess_metadata
          [of "scan\<lparr>item := \<lparr>collection_id = Some ''NIOD-1'', type = ''metadata''\<rparr>\<rparr>"
              "opensAt 1000" 0]
  by simp

section \<open>Properties of the dispatcher\<close>












section \<open>Properties of the EAD reader\<close>

subsection \<open>Node sets and subtrees\<close>

lemma find_Nil: "find [] = []"
  by (simp add: find_def)

lemma set_find: "set (find nodes) = set nodes"
  by (simp add: find_def)

lemma find_empty_iff: "find nodes = [] \<longleftrightarrow> nodes = []"
  using set_find [of nodes] by (metis set_empty)

lemma get_None_iff: "get nodes = None \<longleftrightarrow> nodes = []"
proof (cases "find nodes")
  case Nil
  then have "nodes = []" using find_empty_iff [of nodes] by blast
  with Nil show ?thesis by (simp add: get_def)
next
  case (Cons n rest)
  then have "nodes \<noteq> []" by (auto simp: find_Nil)
  with Cons show ?thesis by (simp add: get_def)
qed

lemma get_Some_mem: "get nodes = Some n \<Longrightarrow> n \<in> set nodes"
proof -
  assume "get nodes = Some n"
  then have "n \<in> set (find nodes)" by (auto simp: get_def split: list.splits)
  then show ?thesis by (simp add: set_find)
qed


lemma set_step: "set (step axis test nodes) = {c. \<exists>n \<in> set nodes. c \<in> set (axis n) \<and> test c}"
  by (auto simp: step_def)

lemma subtree_self: "At x anc \<in> set (subtree x anc)"
  by (cases x) simp_all

lemma childrenFrom_subtrees: "set (childrenFrom p anc i cs) \<subseteq> set (subtrees p anc i cs)"
  by (induction cs arbitrary: i) (auto simp: subtree_self)

lemma subtree_closed:
  "n \<in> set (subtree x anc) \<Longrightarrow> set (child n) \<subseteq> set (subtree x anc)"
  "n \<in> set (subtrees p anc' i cs) \<Longrightarrow> set (child n) \<subseteq> set (subtrees p anc' i cs)"
proof (induction x anc and p anc' i cs arbitrary: n and n rule: subtree_subtrees.induct)
  case (1 t anc)
  then show ?case by simp
next
  case (2 uri local as cs anc)
  show ?case
  proof (cases "n = At (Elem uri local as cs) anc")
    case True
    then show ?thesis
      using childrenFrom_subtrees [of "Elem uri local as cs" anc 0 cs] by auto
  next
    case False
    with "2.prems" have "n \<in> set (subtrees (Elem uri local as cs) anc 0 cs)" by simp
    from "2.IH" [OF this] show ?thesis by auto
  qed
next
  case (3 p anc i)
  then show ?case by simp
next
  case (4 p anc i c cs)
  from "4.prems" have "n \<in> set (subtree c ((p, i) # anc)) \<or> n \<in> set (subtrees p anc (Suc i) cs)"
    by simp
  then show ?case
  proof
    assume "n \<in> set (subtree c ((p, i) # anc))"
    from "4.IH"(1) [OF this] show ?thesis by auto
  next
    assume "n \<in> set (subtrees p anc (Suc i) cs)"
    from "4.IH"(2) [OF this] show ?thesis by auto
  qed
qed

lemma archdescs_anywhere: "set (archdescs doc) \<subseteq> set (anywhere (ead ''archdesc'') doc)"
  using subtree_closed(1) [of _ doc "[]"]
  by (auto simp: archdescs_def children_def anywhere_def set_step)

lemma walkThroughLevels_None: "walkThroughLevels None parentMetadata = Some []"
  by (simp add: walkThroughLevels.simps)


subsection \<open>Every walk returns\<close>

text \<open>
  The element that \<^const>\<open>parentOf\<close> finds is the level's parent when a
  \<^verbatim>\<open>did\<close> precedes the level; otherwise it is the level itself or an element below
  it that no \<^verbatim>\<open>did\<close> precedes. So the walk climbs for a while and then, at most,
  descends: it ends.
\<close>

lemma subtree_ancestors:
  "n \<in> set (subtree x anc) \<Longrightarrow> \<exists>pre. ancestors n = pre @ anc"
  "n \<in> set (subtrees p anc' i cs) \<Longrightarrow> \<exists>pre k. ancestors n = pre @ (p, k) # anc'"
proof (induction x anc and p anc' i cs arbitrary: n and n rule: subtree_subtrees.induct)
  case (1 t anc)
  then show ?case by simp
next
  case (2 uri local as cs anc)
  show ?case
  proof (cases "n = At (Elem uri local as cs) anc")
    case True
    then show ?thesis by simp
  next
    case False
    with "2.prems" have "n \<in> set (subtrees (Elem uri local as cs) anc 0 cs)" by simp
    from "2.IH" [OF this] obtain pre k where "ancestors n = pre @ (Elem uri local as cs, k) # anc"
      by blast
    then have "ancestors n = (pre @ [(Elem uri local as cs, k)]) @ anc" by simp
    then show ?thesis by blast
  qed
next
  case (3 p anc i)
  then show ?case by simp
next
  case (4 p anc i c cs)
  from "4.prems" have "n \<in> set (subtree c ((p, i) # anc)) \<or> n \<in> set (subtrees p anc (Suc i) cs)"
    by simp
  then show ?case
  proof
    assume "n \<in> set (subtree c ((p, i) # anc))"
    from "4.IH"(1) [OF this] show ?thesis by blast
  next
    assume "n \<in> set (subtrees p anc (Suc i) cs)"
    from "4.IH"(2) [OF this] show ?thesis by blast
  qed
qed

lemma subtree_parent:
  "n \<in> set (subtree x anc) \<Longrightarrow> n = At x anc \<or> (\<exists>q. q \<in> set (subtree x anc) \<and> parent n = [q])"
  "n \<in> set (subtrees p anc' i cs)
     \<Longrightarrow> parent n = [At p anc'] \<or> (\<exists>q. q \<in> set (subtrees p anc' i cs) \<and> parent n = [q])"
proof (induction x anc and p anc' i cs arbitrary: n and n rule: subtree_subtrees.induct)
  case (1 t anc)
  then show ?case by simp
next
  case (2 uri local as cs anc)
  show ?case
  proof (cases "n = At (Elem uri local as cs) anc")
    case True
    then show ?thesis by simp
  next
    case False
    with "2.prems" have "n \<in> set (subtrees (Elem uri local as cs) anc 0 cs)" by simp
    from "2.IH" [OF this] show ?thesis by auto
  qed
next
  case (3 p anc i)
  then show ?case by simp
next
  case (4 p anc i c cs)
  from "4.prems" have "n \<in> set (subtree c ((p, i) # anc)) \<or> n \<in> set (subtrees p anc (Suc i) cs)"
    by simp
  then show ?case
  proof
    assume a: "n \<in> set (subtree c ((p, i) # anc))"
    from "4.IH"(1) [OF a] show ?thesis
    proof
      assume "n = At c ((p, i) # anc)"
      then show ?thesis by simp
    next
      assume "\<exists>q. q \<in> set (subtree c ((p, i) # anc)) \<and> parent n = [q]"
      then show ?thesis by auto
    qed
  next
    assume "n \<in> set (subtrees p anc (Suc i) cs)"
    from "4.IH"(2) [OF this] show ?thesis by auto
  qed
qed

lemma subtree_size:
  "n \<in> set (subtree x anc) \<Longrightarrow> size (xml n) \<le> size x"
  "n \<in> set (subtrees p anc' i cs) \<Longrightarrow> size (xml n) \<le> size_list size cs"
proof (induction x anc and p anc' i cs arbitrary: n and n rule: subtree_subtrees.induct)
  case (1 t anc)
  then show ?case by simp
next
  case (2 uri local as cs anc)
  show ?case
  proof (cases "n = At (Elem uri local as cs) anc")
    case True
    then show ?thesis by simp
  next
    case False
    with "2.prems" have "n \<in> set (subtrees (Elem uri local as cs) anc 0 cs)" by simp
    from "2.IH" [OF this] show ?thesis by simp
  qed
next
  case (3 p anc i)
  then show ?case by simp
next
  case (4 p anc i c cs)
  from "4.prems" have "n \<in> set (subtree c ((p, i) # anc)) \<or> n \<in> set (subtrees p anc (Suc i) cs)"
    by simp
  then show ?case
  proof
    assume a: "n \<in> set (subtree c ((p, i) # anc))"
    from "4.IH"(1) [OF a] show ?thesis by simp
  next
    assume "n \<in> set (subtrees p anc (Suc i) cs)"
    from "4.IH"(2) [OF this] show ?thesis by simp
  qed
qed

lemma prefix_le: "(xs :: nat list) \<le> xs @ ys"
  by (induction xs) simp_all

lemma prefix_less: "(xs :: nat list) < xs @ y # ys"
  by (induction xs) simp_all

lemma get_least:
  assumes "get nodes = Some n" and "m \<in> set nodes"
  shows "position n \<le> position m"
proof -
  from assms(1) obtain rest where f: "find nodes = n # rest"
    by (auto simp: get_def split: list.splits)
  have "sorted (map position (find nodes))" by (simp add: find_def)
  with f have "\<forall>k \<in> set (find nodes). position n \<le> position k" by auto
  with assms(2) show ?thesis by (simp add: set_find)
qed

lemma childrenFrom_parent: "d \<in> set (childrenFrom p anc i cs) \<Longrightarrow> parent d = [At p anc]"
  by (induction cs arbitrary: i) auto

lemma precedingSibling_parent:
  assumes "d \<in> set (precedingSibling n)"
  shows "\<exists>q. parent d = [q] \<and> parent n = [q]"
proof (cases n)
  case (At y anc)
  show ?thesis
  proof (cases anc)
    case Nil
    with At assms show ?thesis by simp
  next
    case (Cons qk a)
    obtain q k where qk: "qk = (q, k)" by (cases qk)
    from assms At Cons qk have "d \<in> set (childrenFrom q a 0 (kids q))"
      by (auto dest: in_set_takeD)
    from childrenFrom_parent [OF this] At Cons qk show ?thesis by simp
  qed
qed

lemma parent_position: "parent n = [q] \<Longrightarrow> \<exists>k. position n = position q @ [k]"
proof (cases n)
  case (At y anc)
  assume "parent n = [q]"
  with At show ?thesis by (cases anc) auto
qed

lemma parent_ancestors: "parent n = [q] \<Longrightarrow> length (ancestors q) < length (ancestors n)"
proof (cases n)
  case (At y anc)
  assume "parent n = [q]"
  with At show ?thesis by (cases anc) auto
qed

lemma hasDidBefore_parent: "hasDidBefore n \<Longrightarrow> \<exists>q. parent n = [q]"
proof -
  assume "hasDidBefore n"
  then obtain d where "d \<in> set (precedingSibling n)"
    by (auto simp: hasDidBefore_def filter_empty_conv)
  from precedingSibling_parent [OF this] show ?thesis by blast
qed

lemma candidates_iff:
  "c \<in> set (up (step precedingSibling (ead ''did'') (step descendantOrSelf anyNode [l])))
     \<longleftrightarrow> (\<exists>n \<in> set (descendantOrSelf l). hasDidBefore n \<and> parent n = [c])"
  (is "?L \<longleftrightarrow> ?R")
proof
  assume ?L
  then obtain n d where n: "n \<in> set (descendantOrSelf l)"
    and d: "d \<in> set (precedingSibling n)" "ead ''did'' d" and c: "c \<in> set (parent d)"
    by (auto simp: up_def set_step)
  from precedingSibling_parent [OF d(1)] c have "parent n = [c]" by auto
  moreover from d have "hasDidBefore n" by (auto simp: hasDidBefore_def filter_empty_conv)
  ultimately show ?R using n by blast
next
  assume ?R
  then obtain n where n: "n \<in> set (descendantOrSelf l)" "hasDidBefore n" "parent n = [c]"
    by blast
  from n(2) obtain d where d: "d \<in> set (precedingSibling n)" "ead ''did'' d"
    by (auto simp: hasDidBefore_def filter_empty_conv)
  from precedingSibling_parent [OF d(1)] n(3) have "c \<in> set (parent d)" by auto
  with n(1) d show ?L by (auto simp: up_def set_step)
qed


lemma subtree_position:
  assumes "n \<in> set (descendantOrSelf l)"
  shows "position l \<le> position n"
proof (cases l)
  case (At x anc)
  with assms have "n \<in> set (subtree x anc)" by simp
  from subtree_ancestors(1) [OF this] obtain pre where pre: "ancestors n = pre @ anc" by blast
  have "position n = position l @ rev (map snd pre)"
    using pre At by (cases n) simp
  then show ?thesis by (simp add: prefix_le)
qed

lemma descendant_parent:
  assumes "n \<in> set (descendantOrSelf l)" and "n \<noteq> l" and "parent n = [q]"
  shows "q \<in> set (descendantOrSelf l)"
proof (cases l)
  case (At x anc)
  with assms(1) have "n \<in> set (subtree x anc)" by simp
  from subtree_parent(1) [OF this] assms(2,3) At show ?thesis by auto
qed

lemma descendant_size:
  assumes "n \<in> set (descendantOrSelf l)" and "n \<noteq> l"
  shows "size (xml n) < size (xml l)"
proof (cases l)
  case (At x anc)
  show ?thesis
  proof (cases x)
    case (Text t)
    with At assms show ?thesis by simp
  next
    case (Elem uri local as cs)
    with At assms have "n \<in> set (subtrees (Elem uri local as cs) anc 0 cs)" by simp
    from subtree_size(2) [OF this] At Elem show ?thesis by simp
  qed
qed

lemma self_descendant: "l \<in> set (descendantOrSelf l)"
  by (cases l) (simp add: subtree_self)

lemma parentOf_up:
  assumes "hasDidBefore l" and "parent l = [c]"
  shows "parentOf l = Some c"
proof -
  let ?cs = "up (step precedingSibling (ead ''did'') (step descendantOrSelf anyNode [l]))"
  from assms self_descendant [of l] have c: "c \<in> set ?cs"
    unfolding candidates_iff by blast
  then have "get ?cs \<noteq> None" by (auto simp: get_None_iff)
  then obtain m where m: "get ?cs = Some m" by blast
  from get_Some_mem [OF m] obtain n
    where n: "n \<in> set (descendantOrSelf l)" "hasDidBefore n" "parent n = [m]"
    unfolding candidates_iff by blast
  have "m = c"
  proof (cases "n = l")
    case True
    with n(3) assms(2) show ?thesis by simp
  next
    case False
    from descendant_parent [OF n(1) False n(3)] have "position l \<le> position m"
      by (rule subtree_position)
    moreover from parent_position [OF assms(2)] have "position c < position l"
      by (auto simp: prefix_less)
    moreover from get_least [OF m c] have "position m \<le> position c" .
    ultimately show ?thesis by simp
  qed
  with m show ?thesis by (simp add: parentOf_def)
qed

lemma parentOf_down:
  assumes "\<not> hasDidBefore l" and "parentOf l = Some q" and "q \<noteq> l"
  shows "\<not> hasDidBefore q \<and> size (xml q) < size (xml l)"
proof -
  let ?cs = "up (step precedingSibling (ead ''did'') (step descendantOrSelf anyNode [l]))"
  from assms(2) have g: "get ?cs = Some q" by (simp add: parentOf_def)
  from get_Some_mem [OF g] obtain n
    where n: "n \<in> set (descendantOrSelf l)" "hasDidBefore n" "parent n = [q]"
    unfolding candidates_iff by blast
  from n(2) assms(1) have "n \<noteq> l" by blast
  from descendant_parent [OF n(1) this n(3)] have q: "q \<in> set (descendantOrSelf l)" .
  have "\<not> hasDidBefore q"
  proof
    assume h: "hasDidBefore q"
    from hasDidBefore_parent [OF h] obtain r where r: "parent q = [r]" by blast
    from q h r have "r \<in> set ?cs" unfolding candidates_iff by blast
    from get_least [OF g this] have "position q \<le> position r" .
    moreover from parent_position [OF r] have "position r < position q"
      by (auto simp: prefix_less)
    ultimately show False by simp
  qed
  with descendant_size [OF q assms(3)] show ?thesis by simp
qed

lemma walkThroughLevels_down:
  "\<not> hasDidBefore l \<Longrightarrow> \<exists>levels. walkThroughLevels (Some l) parentMetadata = Some levels"
proof (induction "size (xml l)" arbitrary: l parentMetadata rule: less_induct)
  case less
  let ?m = "extractMetadataFromLevel (Some l) (Some parentMetadata)"
  show ?case
  proof (cases "parentOf l")
    case None
    then show ?thesis by (subst walkThroughLevels.simps) simp
  next
    case (Some q)
    show ?thesis
    proof (cases "nodeName q \<noteq> nodeName l")
      case False
      with Some show ?thesis by (subst walkThroughLevels.simps) simp
    next
      case True
      then have "q \<noteq> l" by auto
      from parentOf_down [OF less.prems Some this]
      have "\<not> hasDidBefore q" and "size (xml q) < size (xml l)" by simp_all
      from less.hyps [OF this(2) this(1), of ?m]
      obtain levels where "walkThroughLevels (Some q) ?m = Some levels" by blast
      with Some True show ?thesis by (subst walkThroughLevels.simps) simp
    qed
  qed
qed

lemma walkThroughLevels_level:
  "\<exists>levels. walkThroughLevels (Some l) parentMetadata = Some levels"
proof (induction "length (ancestors l)" arbitrary: l parentMetadata rule: less_induct)
  case less
  let ?m = "extractMetadataFromLevel (Some l) (Some parentMetadata)"
  show ?case
  proof (cases "hasDidBefore l")
    case False
    then show ?thesis by (rule walkThroughLevels_down)
  next
    case True
    from hasDidBefore_parent [OF True] obtain c where c: "parent l = [c]" by blast
    from parentOf_up [OF True c] have p: "parentOf l = Some c" .
    show ?thesis
    proof (cases "nodeName c \<noteq> nodeName l")
      case False
      with p show ?thesis by (subst walkThroughLevels.simps) simp
    next
      case True
      from less.hyps [OF parent_ancestors [OF c], of ?m]
      obtain levels where "walkThroughLevels (Some c) ?m = Some levels" by blast
      with p True show ?thesis by (subst walkThroughLevels.simps) simp
    qed
  qed
qed

lemma walkThroughLevels_returns:
  "\<exists>levels. walkThroughLevels level parentMetadata = Some levels"
proof (cases level)
  case None
  then show ?thesis by (simp add: walkThroughLevels_None)
next
  case (Some l)
  with walkThroughLevels_level [of l parentMetadata] show ?thesis by simp
qed

text \<open>
  \<^verbatim>\<open>getMetadata\<close> returns a list of records for every document and every collection
  identifier that fits into the XPath string literal.
\<close>

theorem getMetadata_returns:
  assumes "xpathLiteral (getUnitId collectionId)"
  shows "\<exists>levels. getMetadata collectionId doc = Some levels"
proof (cases "get (archdescs doc)")
  case None
  then show ?thesis by (simp add: getMetadata_def)
next
  case (Some archdesc)
  obtain levels where
    "walkThroughLevels (levelOf (getUnitId collectionId) archdesc)
       (extractMetadataFromLevel (Some archdesc) None) = Some levels"
    using walkThroughLevels_returns by blast
  with Some show ?thesis by (simp add: getMetadata_def)
qed

theorem getMetadata_returns_witness:
  "\<exists>levels. getMetadata ''A.1.1'' fondsA = Some levels"
proof -
  have h: "xpathLiteral (getUnitId ''A.1.1'')" by code_simp
  from getMetadata_returns [OF h] show ?thesis .
qed

text \<open>
  In a document with a root description the first record is the root's, whatever the
  identifier.
\<close>

theorem getMetadata_root_first:
  assumes "get (archdescs doc) = Some archdesc" and "xpathLiteral (getUnitId collectionId)"
  shows "\<exists>levels. getMetadata collectionId doc
                    = Some (extractMetadataFromLevel (Some archdesc) None # levels)"
proof -
  obtain levels where
    "walkThroughLevels (levelOf (getUnitId collectionId) archdesc)
       (extractMetadataFromLevel (Some archdesc) None) = Some levels"
    using walkThroughLevels_returns by blast
  with assms(1) show ?thesis by (simp add: getMetadata_def)
qed

theorem getMetadata_root_first_witness:
  "\<exists>levels. getMetadata ''A.1.1'' fondsA
              = Some (extractMetadataFromLevel (Some fondsA_archdesc) None # levels)"
proof -
  have h: "get (archdescs fondsA) = Some fondsA_archdesc" by code_simp
  have l: "xpathLiteral (getUnitId ''A.1.1'')" by code_simp
  from getMetadata_root_first [OF h l] show ?thesis .
qed

subsection \<open>The identifier within the collection\<close>

text \<open>
  \<^verbatim>\<open>getUnitId\<close> drops the part of the collection identifier up to its first dot; an
  identifier without a dot leaves the empty string.
\<close>

lemma split_not_Nil: "split sep s \<noteq> []"
  by (induction s) (auto split: list.splits)

lemma join_Cons_Cons: "join sp ((c # part) # parts) = c # join sp (part # parts)"
  by (cases parts) simp_all

lemma join_split: "join [sep] (split sep s) = s"
proof (induction s)
  case Nil
  then show ?case by simp
next
  case (Cons c cs)
  obtain part parts where sp: "split sep cs = part # parts"
    using split_not_Nil [of sep cs] by (cases "split sep cs") auto
  show ?case
  proof (cases "c = sep")
    case True
    with sp Cons show ?thesis by simp
  next
    case False
    with sp Cons show ?thesis by (simp add: join_Cons_Cons)
  qed
qed

lemma split_append:
  "sep \<notin> set root \<Longrightarrow> split sep (root @ sep # rest) = root # split sep rest"
proof (induction root)
  case Nil
  then show ?case by simp
next
  case (Cons c cs)
  then show ?case by auto
qed

text \<open>The root segment is cut off, the rest is kept as it is.\<close>

theorem getUnitId_strips_root:
  assumes "CHR ''.'' \<notin> set root"
  shows "getUnitId (root @ ''.'' @ rest) = rest \<and> getUnitId root = []"
proof -
  have "split CHR ''.'' root = [root]"
    using assms by (induction root) auto
  then have "getUnitId root = []" by (simp add: getUnitId_def)
  moreover have "getUnitId (root @ ''.'' @ rest) = rest"
    using split_append [OF assms, of rest] join_split [of "CHR ''.''" rest]
    by (simp add: getUnitId_def)
  ultimately show ?thesis by simp
qed

theorem getUnitId_strips_root_witness:
  "getUnitId ''ARCH00293.12.3'' = ''12.3'' \<and> getUnitId ''ARCH00293'' = []"
  using getUnitId_strips_root [of "''ARCH00293''" "''12.3''"] by simp

subsection \<open>Documents without a root description\<close>

text \<open>
  C10. When the document has no \<^verbatim>\<open>archdesc\<close> element at all, in any place, and
  more generally when it has none directly below an \<^verbatim>\<open>ead\<close> element,
  \<^verbatim>\<open>getMetadata\<close> returns the empty list for every collection identifier: no record
  is made up for the missing root.
\<close>

theorem getMetadata_without_archdesc:
  "(anywhere (ead ''archdesc'') doc = [] \<longrightarrow> getMetadata collectionId doc = Some [])
   \<and> (archdescs doc = [] \<longrightarrow> getMetadata collectionId doc = Some [])"
proof -
  have none: "getMetadata collectionId doc = Some []" if "archdescs doc = []"
  proof -
    from that have "get (archdescs doc) = None" by (simp add: get_None_iff)
    then show ?thesis by (simp add: getMetadata_def)
  qed
  have "archdescs doc = []" if "anywhere (ead ''archdesc'') doc = []"
    using that archdescs_anywhere [of doc] by simp
  with none show ?thesis by blast
qed

theorem getMetadata_without_archdesc_witness:
  "getMetadata ''A.1'' headerOnly = Some [] \<and> getMetadata ''A.1'' (tag ''archdesc'' []) = Some []"
proof -
  have h: "anywhere (ead ''archdesc'') headerOnly = []" by code_simp
  have g: "archdescs (tag ''archdesc'' []) = []" by code_simp
  from getMetadata_without_archdesc [of headerOnly "''A.1''"] h
       getMetadata_without_archdesc [of "tag ''archdesc'' []" "''A.1''"] g
  show ?thesis by blast
qed

subsection \<open>Identifiers the finding aid does not know\<close>



subsection \<open>The three levels of Fonds A\<close>

text \<open>
  C3, as the code has it. For \<open>fondsA\<close> and the identifier A.1.1,
  \<^verbatim>\<open>getMetadata\<close> returns three records, root first: the fonds with the title
  "Fonds A", order 0 and no \<^verbatim>\<open>eadTitle\<close>; the series with the title "No title";
  the item with the title "Letter". Both records below the root carry the
  \<^verbatim>\<open>eadTitle\<close> "Fonds A": the item is extracted first, with the root's record as
  its context, and hands the title of the fonds on to the series.
\<close>

theorem getMetadata_fondsA:
  "getMetadata ''A.1.1'' fondsA = Some
     [\<lparr>formats = [], title = ''Fonds A'', unitId = Some (Md5Hex ''Fonds A''),
        unitIdIsInventoryNumber = False, order = Some 0, content = None,
        extent = None, authors = None, dates = None, eadTitle = None\<rparr>,
      \<lparr>formats = [], title = ''No title'', unitId = Some (UnitIdText ''1''),
        unitIdIsInventoryNumber = True, order = Some 0, content = None,
        extent = None, authors = None, dates = None, eadTitle = Some ''Fonds A''\<rparr>,
      \<lparr>formats = [], title = ''Letter'', unitId = Some (UnitIdText ''1.1''),
        unitIdIsInventoryNumber = True, order = Some 1, content = None,
        extent = None, authors = None, dates = None, eadTitle = Some ''Fonds A''\<rparr>]"
  by code_simp

text \<open>
  The claim's record of the root has no order, and its record of the item has the
  \<^verbatim>\<open>eadTitle\<close> "No title"; the code sets the order of every level, and gives the
  item the title of the fonds.
\<close>

theorem getMetadata_fondsA_counterexample:
  "order (the (getMetadata ''A.1.1'' fondsA) ! 0) \<noteq> None
   \<and> eadTitle (the (getMetadata ''A.1.1'' fondsA) ! 2) \<noteq> Some ''No title''"
  by code_simp

subsection \<open>The inventory number flag\<close>

text \<open>
  C4, as the code has it. For a level whose title is not empty,
  \<^verbatim>\<open>unitIdIsInventoryNumber\<close> is true exactly when the level has a \<^verbatim>\<open>unitid\<close>
  of its own and the record is not the root's (it was extracted with a context record).
\<close>

theorem unitIdIsInventoryNumber_iff:
  assumes "title (extractMetadataFromLevel (Some el) parentMetadata) \<noteq> []"
  shows "unitIdIsInventoryNumber (extractMetadataFromLevel (Some el) parentMetadata)
           = (get (children ''unitid'' (children ''did'' [el])) \<noteq> None \<and> parentMetadata \<noteq> None)"
  using assms
  by (simp add: extractMetadataFromLevel_def extractFormats_def extractTitle_def extractUnitId_def
        extractOrder_def extractContent_def extractExtent_def extractAuthors_def extractDates_def
        extractEadTitle_def Let_def split: option.splits if_splits)

theorem unitIdIsInventoryNumber_iff_witness:
  "unitIdIsInventoryNumber (extractMetadataFromLevel (Some numbered) (Some blank))
   \<and> \<not> unitIdIsInventoryNumber (extractMetadataFromLevel (Some numbered) None)
   \<and> \<not> unitIdIsInventoryNumber (extractMetadataFromLevel (Some unnumbered) (Some blank))"
proof -
  have t1: "title (extractMetadataFromLevel (Some numbered) (Some blank)) \<noteq> []" by code_simp
  have t2: "title (extractMetadataFromLevel (Some numbered) None) \<noteq> []" by code_simp
  have t3: "title (extractMetadataFromLevel (Some unnumbered) (Some blank)) \<noteq> []" by code_simp
  have u1: "get (children ''unitid'' (children ''did'' [numbered])) \<noteq> None" by code_simp
  have u2: "get (children ''unitid'' (children ''did'' [unnumbered])) = None" by code_simp
  from unitIdIsInventoryNumber_iff [OF t1] unitIdIsInventoryNumber_iff [OF t2]
       unitIdIsInventoryNumber_iff [OF t3] u1 u2
  show ?thesis by simp
qed

text \<open>
  The claim has the flag true exactly without an identifier. A series with an
  identifier, below the root, has it true; a series with a title only has it false. Nor
  is the flag the negation of what the claim describes: for a root with an identifier it
  is false.
\<close>

theorem unitIdIsInventoryNumber_counterexample:
  "unitIdIsInventoryNumber (extractMetadataFromLevel (Some numbered) (Some blank))
   \<and> \<not> unitIdIsInventoryNumber (extractMetadataFromLevel (Some unnumbered) (Some blank))
   \<and> get (children ''unitid'' (children ''did'' [numbered])) \<noteq> None
   \<and> \<not> unitIdIsInventoryNumber (extractMetadataFromLevel (Some numbered) None)"
  by code_simp

subsection \<open>Formats handed down\<close>



text \<open>
  A \<^verbatim>\<open>genreform\<close> text that matches no known format still classifies, as archive,
  and so keeps the context's formats out.
\<close>

theorem unmatched_genre_is_archive:
  "formats (extractMetadataFromLevel (Some minuteBook) (Some (blank\<lparr>formats := [''book'']\<rparr>)))
     = [''archive'']"
  by code_simp

subsection \<open>Access\<close>

text \<open>
  C9. For every document and every collection identifier that fits into the XPath
  string literal, \<^verbatim>\<open>getAccess\<close> returns one of open, closed, restricted and date,
  and it returns open whenever the restriction it arrives at is none of gesloten, closed,
  beperkt, restricted and date: in particular when the document has no
  \<^verbatim>\<open>accessrestrict\<close>, and, for a restriction not marked as partial, when it has no
  paragraph or a paragraph whose trimmed lower-case text is none of the five.
\<close>

theorem getAccess_total:
  assumes "xpathLiteral (getUnitId collectionId)"
  shows "getAccess collectionId doc \<in> set [''open'', ''closed'', ''restricted'', ''date'']
       \<and> (\<not> recognised (restriction collectionId doc) \<longrightarrow> getAccess collectionId doc = ''open'')
       \<and> (accessRestrictOf doc = None \<longrightarrow> getAccess collectionId doc = ''open'')
       \<and> (accessRestrictOf doc = Some ar \<and> attr ''type'' ar \<noteq> Some ''part''
            \<and> get (children ''p'' [ar]) = None \<longrightarrow> getAccess collectionId doc = ''open'')
       \<and> (accessRestrictOf doc = Some ar \<and> attr ''type'' ar \<noteq> Some ''part''
            \<and> get (children ''p'' [ar]) = Some v
            \<and> \<not> recognised (Some (trim (toLowerCase (textOf v))))
            \<longrightarrow> getAccess collectionId doc = ''open'')"
  by (simp add: getAccess_def restriction_def recognised_def Let_def)

theorem getAccess_total_witness:
  "getAccess ''A.1'' readingRoom = ''open'' \<and> getAccess ''A.1'' fondsA = ''open''"
proof -
  have h: "xpathLiteral (getUnitId ''A.1'')" by code_simp
  have u: "\<not> recognised (restriction ''A.1'' readingRoom)" by code_simp
  have n: "accessRestrictOf fondsA = None" by code_simp
  from getAccess_total [OF h, of readingRoom] u
       getAccess_total [OF h, of fondsA] n
  show ?thesis by simp
qed

text \<open>
  C2, as the code has it. Where the restriction of the fonds is marked as partial
  (\<^verbatim>\<open>type="part"\<close>), its own text no longer counts: an identifier whose level has no
  \<^verbatim>\<open>accessrestrict\<close> is open, and so is one whose \<^verbatim>\<open>accessrestrict\<close> has the
  type open or no type. Where the restriction of the fonds is not marked as partial and
  reads closed, every identifier is closed, whatever its level says.
\<close>

theorem getAccess_part:
  assumes "accessRestrictOf doc = Some ar" and "xpathLiteral (getUnitId collectionId)"
  shows "(attr ''type'' ar = Some ''part''
            \<and> itemAccessRestrictOf (getUnitId collectionId) doc = None
          \<longrightarrow> getAccess collectionId doc = ''open'')
       \<and> (attr ''type'' ar = Some ''part''
            \<and> itemAccessRestrictOf (getUnitId collectionId) doc = Some iar
            \<and> (attr ''type'' iar = None \<or> attr ''type'' iar = Some ''open'')
          \<longrightarrow> getAccess collectionId doc = ''open'')
       \<and> (attr ''type'' ar \<noteq> Some ''part'' \<and> get (children ''p'' [ar]) = Some v
            \<and> (trim (toLowerCase (textOf v)) = ''closed'' \<or> trim (toLowerCase (textOf v)) = ''gesloten'')
          \<longrightarrow> getAccess collectionId doc = ''closed'')"
proof (intro conjI impI)
  assume "attr ''type'' ar = Some ''part''
            \<and> itemAccessRestrictOf (getUnitId collectionId) doc = None"
  with assms(1) show "getAccess collectionId doc = ''open''"
    by (simp add: getAccess_def restriction_def)
next
  assume "attr ''type'' ar = Some ''part''
            \<and> itemAccessRestrictOf (getUnitId collectionId) doc = Some iar
            \<and> (attr ''type'' iar = None \<or> attr ''type'' iar = Some ''open'')"
  with assms(1) have "restriction collectionId doc = Some ''open''"
    by (auto simp: restriction_def)
  then show "getAccess collectionId doc = ''open''"
    by (simp add: getAccess_def)
next
  assume "attr ''type'' ar \<noteq> Some ''part'' \<and> get (children ''p'' [ar]) = Some v
            \<and> (trim (toLowerCase (textOf v)) = ''closed'' \<or> trim (toLowerCase (textOf v)) = ''gesloten'')"
  with assms(1) have "restriction collectionId doc = Some ''closed''
                    \<or> restriction collectionId doc = Some ''gesloten''"
    by (auto simp: restriction_def)
  then show "getAccess collectionId doc = ''closed''"
    by (auto simp: getAccess_def)
qed

theorem getAccess_part_witness:
  "getAccess ''A.1'' (closedBut1 [(''type'', ''part'')]) = ''open''
   \<and> getAccess ''A.2'' (closedBut1 [(''type'', ''part'')]) = ''open''
   \<and> getAccess ''A.1'' (closedBut1 []) = ''closed''"
proof -
  let ?p = "closedBut1 [(''type'', ''part'')]" and ?w = "closedBut1 []"
  let ?ar = "the (accessRestrictOf ?p)" and ?iar = "the (itemAccessRestrictOf ''1'' ?p)"
  let ?aw = "the (accessRestrictOf ?w)"
  let ?v = "the (get (children ''p'' [?aw]))"
  have a: "accessRestrictOf ?p = Some ?ar" by code_simp
  have b: "accessRestrictOf ?w = Some ?aw" by code_simp
  have l1: "xpathLiteral (getUnitId ''A.1'')" by code_simp
  have l2: "xpathLiteral (getUnitId ''A.2'')" by code_simp
  have c1: "attr ''type'' ?ar = Some ''part''
            \<and> itemAccessRestrictOf (getUnitId ''A.1'') ?p = Some ?iar
            \<and> (attr ''type'' ?iar = None \<or> attr ''type'' ?iar = Some ''open'')" by code_simp
  have c2: "attr ''type'' ?ar = Some ''part''
            \<and> itemAccessRestrictOf (getUnitId ''A.2'') ?p = None" by code_simp
  have c3: "attr ''type'' ?aw \<noteq> Some ''part'' \<and> get (children ''p'' [?aw]) = Some ?v
            \<and> (trim (toLowerCase (textOf ?v)) = ''closed''
                \<or> trim (toLowerCase (textOf ?v)) = ''gesloten'')" by code_simp
  from getAccess_part [OF a l1, of ?iar ?v] c1
       getAccess_part [OF a l2, of ?iar ?v] c2
       getAccess_part [OF b l1, of ?iar ?v] c3
  show ?thesis by blast
qed

text \<open>
  The claim's pair of answers, open for the series with the override and closed for its
  sibling, comes out in neither reading: marked as partial, the closed fonds leaves the
  sibling open; not marked, it closes the series with the override too.
\<close>

theorem getAccess_override_counterexample:
  "getAccess ''A.2'' (closedBut1 [(''type'', ''part'')]) \<noteq> ''closed''
   \<and> getAccess ''A.1'' (closedBut1 []) \<noteq> ''open''"
  by code_simp

end
